theory Spec2Isabelle
  imports Main "HOL-Library.Sublist"
begin

section \<open>The table file\<close>

text \<open>
  The store of \<^verbatim>\<open>screen_capture_extractor.py\<close> owns one CSV file. The file is modelled at
  the granularity at which the program touches it: a sequence of CSV records, each a list of
  text fields. \<^verbatim>\<open>csv.writer.writerow\<close> adds one record, \<^verbatim>\<open>csv.reader\<close> gives the records back
  as they were written (a record with no field is a blank line, which the reader yields as the
  empty list). \<open>None\<close> is the state in which no file exists at \<^verbatim>\<open>csv_path\<close>.
  \<^verbatim>\<open>ensure_parent_dir\<close> only creates the directory that holds the file and is left out.
\<close>

type_synonym csv_record = "string list"

type_synonym disk = "csv_record list option"

text \<open>
  What a function does to the file is the sequence of its write-side effects, in program
  order: \<^verbatim>\<open>open(csv_path, "w")\<close> creates or truncates, \<^verbatim>\<open>open(csv_path, "a")\<close> creates or
  keeps, and every \<^verbatim>\<open>writeheader\<close>/\<^verbatim>\<open>writerow\<close> writes one record at the end.
\<close>

datatype io_op = OpenW | OpenA | WriteRec csv_record

fun apply_op :: "io_op \<Rightarrow> disk \<Rightarrow> disk" where
  "apply_op OpenW d = Some []"
| "apply_op OpenA d = Some (case d of None \<Rightarrow> [] | Some recs \<Rightarrow> recs)"
| "apply_op (WriteRec r) d = (case d of None \<Rightarrow> None | Some recs \<Rightarrow> Some (recs @ [r]))"

definition run_ops :: "io_op list \<Rightarrow> disk \<Rightarrow> disk" where
  "run_ops ops d = foldl (\<lambda>s op. apply_op op s) d ops"

text \<open>\<^verbatim>\<open>sep.join(xs)\<close>\<close>

fun join :: "string \<Rightarrow> string list \<Rightarrow> string" where
  "join sep [] = []"
| "join sep [x] = x"
| "join sep (x # y # ys) = x @ sep @ join sep (y # ys)"









datatype py_error =
  FileNotFoundError | EmptyDataError | ParserError | ValueError | AttributeError | TypeError

section \<open>Python dictionaries\<close>

text \<open>
  A \<^verbatim>\<open>dict\<close> keeps its keys in insertion order; assigning to a key that is present keeps the
  key's position. It is an association list whose keys are distinct.
\<close>

fun dict_set :: "'k \<Rightarrow> 'v \<Rightarrow> ('k \<times> 'v) list \<Rightarrow> ('k \<times> 'v) list" where
  "dict_set k v [] = [(k, v)]"
| "dict_set k v (p # ps) = (if fst p = k then (k, v) # ps else p # dict_set k v ps)"

definition py_dict :: "('k \<times> 'v) list \<Rightarrow> ('k \<times> 'v) list" where
  "py_dict kvs = foldl (\<lambda>d kv. dict_set (fst kv) (snd kv) d) [] kvs"

text \<open>A row handed to the store: \<^verbatim>\<open>Dict[str, str]\<close>.\<close>

type_synonym row = "(string \<times> string) list"

definition keys :: "('k \<times> 'v) list \<Rightarrow> 'k list" where
  "keys r = map fst r"

text \<open>\<^verbatim>\<open>row.get(k, "")\<close>\<close>

definition row_get :: "row \<Rightarrow> string \<Rightarrow> string" where
  "row_get r k = (case map_of r k of None \<Rightarrow> [] | Some v \<Rightarrow> v)"

text \<open>\<^verbatim>\<open>{k: row.get(k, "") for k in new_fields}\<close>, written by a \<^verbatim>\<open>DictWriter\<close> over \<open>new_fields\<close>.\<close>

definition render :: "string list \<Rightarrow> row \<Rightarrow> csv_record" where
  "render new_fields r = map (row_get r) new_fields"

section \<open>csv.DictReader and csv.DictWriter\<close>

text \<open>
  A row as \<^verbatim>\<open>csv.DictReader\<close> yields it: the fields zipped with the header; a field the
  record lacks is \<^verbatim>\<open>None\<close> (\<open>restval\<close>); the fields beyond the header, if any, are kept as a
  list under the key \<^verbatim>\<open>None\<close> (\<open>restkey\<close>).
\<close>

record dict_row =
  cells :: "(string \<times> string option) list"
  extras :: "string list option"

text \<open>\<^verbatim>\<open>reader.fieldnames or []\<close>: the first record, or nothing for an empty file.\<close>

definition fieldnames_of :: "csv_record list \<Rightarrow> string list" where
  "fieldnames_of recs = (case recs of [] \<Rightarrow> [] | h # _ \<Rightarrow> h)"

definition reader_row :: "string list \<Rightarrow> csv_record \<Rightarrow> dict_row" where
  "reader_row fieldnames r =
     (let d = py_dict (zip fieldnames (map Some r));
          lf = length fieldnames;
          lr = length r
      in if lf < lr then \<lparr>cells = d, extras = Some (drop lf r)\<rparr>
         else \<lparr>cells = foldl (\<lambda>d k. dict_set k None d) d (drop lr fieldnames), extras = None\<rparr>)"

text \<open>\<^verbatim>\<open>list(reader)\<close>: the records after the header, blank ones skipped.\<close>

definition reader_rows :: "csv_record list \<Rightarrow> dict_row list" where
  "reader_rows recs = map (reader_row (fieldnames_of recs)) (filter (\<lambda>r. r \<noteq> []) (tl recs))"

text \<open>The writer renders \<^verbatim>\<open>None\<close> as the empty field.\<close>

definition field_text :: "string option \<Rightarrow> string" where
  "field_text v = (case v of None \<Rightarrow> [] | Some s \<Rightarrow> s)"

text \<open>\<^verbatim>\<open>r.get(k, "")\<close> on a row of the reader.\<close>

definition cell_get :: "dict_row \<Rightarrow> string \<Rightarrow> string option" where
  "cell_get r k = (case map_of (cells r) k of None \<Rightarrow> Some [] | Some v \<Rightarrow> v)"

text \<open>\<^verbatim>\<open>{k: r.get(k, "") for k in new_fields}\<close> for an existing row, as written.\<close>

definition padded :: "string list \<Rightarrow> dict_row \<Rightarrow> csv_record" where
  "padded new_fields r = map (\<lambda>k. field_text (cell_get r k)) new_fields"

text \<open>
  \<^verbatim>\<open>DictWriter._dict_to_list\<close> with the default \<^verbatim>\<open>extrasaction="raise"\<close>: a key of the row that
  is no field name raises \<^verbatim>\<open>ValueError\<close>. The key \<^verbatim>\<open>None\<close> of an over-long row is such a key.
\<close>

definition dict_to_list :: "string list \<Rightarrow> dict_row \<Rightarrow> py_error + csv_record" where
  "dict_to_list fieldnames r =
     (if extras r \<noteq> None \<or> \<not> set (keys (cells r)) \<subseteq> set fieldnames then Inl ValueError
      else Inr (padded fieldnames r))"

text \<open>\<^verbatim>\<open>writer.writerows(rows)\<close>: the rows before the one that raises are written.\<close>

fun writerows :: "string list \<Rightarrow> dict_row list \<Rightarrow> (py_error + unit) \<times> io_op list" where
  "writerows fieldnames [] = (Inr (), [])"
| "writerows fieldnames (r # rs) =
     (case dict_to_list fieldnames r of
        Inl e \<Rightarrow> (Inl e, [])
      | Inr rec \<Rightarrow> (case writerows fieldnames rs of (res, ops) \<Rightarrow> (res, WriteRec rec # ops)))"

section \<open>The store\<close>

definition append_row_to_csv :: "row \<Rightarrow> disk \<Rightarrow> io_op list" where
  "append_row_to_csv r d =
     (let exists = (d \<noteq> None);
          fieldnames = keys r
      in OpenA # (if \<not> exists then [WriteRec fieldnames] else []) @ [WriteRec (render fieldnames r)])"

definition remove_last_row_from_csv :: "disk \<Rightarrow> (py_error + bool) \<times> io_op list" where
  "remove_last_row_from_csv d =
     (case d of
        None \<Rightarrow> (Inr False, [])
      | Some recs \<Rightarrow>
          (let rows = reader_rows recs;
               fieldnames = fieldnames_of recs
           in if rows = [] then (Inr False, [])
              else (case writerows fieldnames (butlast rows) of
                      (Inl e, ops) \<Rightarrow> (Inl e, OpenW # WriteRec fieldnames # ops)
                    | (Inr _, ops) \<Rightarrow> (Inr True, OpenW # WriteRec fieldnames # ops))))"

text \<open>The loop \<^verbatim>\<open>for k in row.keys(): if k not in new_fields: new_fields.append(k)\<close>.\<close>

definition union_fields :: "string list \<Rightarrow> string list \<Rightarrow> string list" where
  "union_fields old_fields ks =
     foldl (\<lambda>new_fields k. if k \<in> set new_fields then new_fields else new_fields @ [k]) old_fields ks"

definition sync_header_and_append :: "row \<Rightarrow> disk \<Rightarrow> io_op list" where
  "sync_header_and_append r d =
     (case d of
        None \<Rightarrow> append_row_to_csv r d
      | Some recs \<Rightarrow>
          (let old_fields = fieldnames_of recs;
               rows = reader_rows recs;
               new_fields = union_fields old_fields (keys r)
           in if new_fields = old_fields then [OpenA, WriteRec (render new_fields r)]
              else OpenW # WriteRec new_fields # map (\<lambda>x. WriteRec (padded new_fields x)) rows
                     @ [WriteRec (render new_fields r)]))"

text \<open>
  \<^verbatim>\<open>sync_header_and_append_many\<close> collects the keys in a \<^verbatim>\<open>set\<close> and lists the set. The order
  in which Python iterates a set of strings depends on their hashes, which differ from one run
  to the next; it is the parameter \<open>set_iter\<close>, from the keys in the order they were added to
  the list the iteration gives. Every such order lists each member of the set once.
\<close>

definition set_order :: "(string list \<Rightarrow> string list) \<Rightarrow> bool" where
  "set_order set_iter = (\<forall>ks. set (set_iter ks) = set ks \<and> distinct (set_iter ks))"

definition sync_header_and_append_many ::
    "(string list \<Rightarrow> string list) \<Rightarrow> row list \<Rightarrow> disk \<Rightarrow> io_op list" where
  "sync_header_and_append_many set_iter rows d =
     (case d of
        None \<Rightarrow>
          (if rows = [] then []
           else (let fieldnames = set_iter (concat (map keys rows))
                 in OpenW # WriteRec fieldnames # map (\<lambda>r. WriteRec (render fieldnames r)) rows))
      | Some recs \<Rightarrow>
          (let old_fields = fieldnames_of recs;
               existing_rows = reader_rows recs;
               new_fields_set = old_fields @ concat (map keys rows);
               new_fields = old_fields @ filter (\<lambda>k. k \<notin> set old_fields) (set_iter new_fields_set)
           in OpenW # WriteRec new_fields # map (\<lambda>x. WriteRec (padded new_fields x)) existing_rows
                @ map (\<lambda>r. WriteRec (render new_fields r)) rows))"

text \<open>A call of the store, and a sequence of calls run one after the other on the file.\<close>

datatype store_call = Append row | AppendMany "row list" | RemoveLast

fun effects :: "(string list \<Rightarrow> string list) \<Rightarrow> store_call \<Rightarrow> disk \<Rightarrow> io_op list" where
  "effects set_iter (Append r) d = sync_header_and_append r d"
| "effects set_iter (AppendMany rows) d = sync_header_and_append_many set_iter rows d"
| "effects set_iter RemoveLast d = snd (remove_last_row_from_csv d)"

definition perform :: "(string list \<Rightarrow> string list) \<Rightarrow> store_call \<Rightarrow> disk \<Rightarrow> disk" where
  "perform set_iter c d = run_ops (effects set_iter c d) d"

definition perform_all :: "(string list \<Rightarrow> string list) \<Rightarrow> store_call list \<Rightarrow> disk \<Rightarrow> disk" where
  "perform_all set_iter cs d = foldl (\<lambda>s c. perform set_iter c s) d cs"

text \<open>The header of the table on disk; a table that does not exist has no column.\<close>

definition header_of :: "disk \<Rightarrow> string list" where
  "header_of d = (case d of None \<Rightarrow> [] | Some recs \<Rightarrow> fieldnames_of recs)"

text \<open>The keys of a sequence in the order in which they are first seen.\<close>

definition first_seen :: "string list \<Rightarrow> string list" where
  "first_seen ks = union_fields [] ks"

text \<open>Another order in which a set may be iterated: the last key added comes first.\<close>

definition last_added_first :: "string list \<Rightarrow> string list" where
  "last_added_first ks = rev (first_seen ks)"

text \<open>
  The Table of the specification, as a file: column names are unique, and no record has
  more fields than the header (a record may lack trailing fields).
\<close>

definition table_file :: "csv_record list \<Rightarrow> bool" where
  "table_file recs =
     (case recs of [] \<Rightarrow> True
      | h # rs \<Rightarrow> distinct h \<and> list_all (\<lambda>r. length r \<le> length h) rs)"

text \<open>The records the opened file holds before the first write.\<close>

fun opened :: "io_op \<Rightarrow> disk \<Rightarrow> csv_record list" where
  "opened OpenW d = []"
| "opened OpenA d = (case d of None \<Rightarrow> [] | Some recs \<Rightarrow> recs)"
| "opened (WriteRec r) d = (case d of None \<Rightarrow> [] | Some recs \<Rightarrow> recs)"


section \<open>The loader of view\_captures.py\<close>

record dataframe =
  columns :: "string list"
  frame_rows :: "string list list"

text \<open>
  \<^verbatim>\<open>pd.read_csv(csv_path, dtype=str, keep_default_na=False)\<close> on the records of the file.
  pandas skips blank lines, and a line that holds only spaces or tabs is a blank line for it:
  that is the record with no field and the record of one field, not empty, of spaces and tabs
  only (a record of one empty field is written as two double quotes and is no blank line). The
  first record left names the columns; a file with no column raises \<^verbatim>\<open>EmptyDataError\<close>; every
  value stays the text it is (no value is read as missing); a record shorter than the header is
  filled with empty fields. pandas renames empty and repeated column names and reads a record
  longer than the header either as an error or with leading index columns; the model keeps the
  names as they are and reports the longer record as \<^verbatim>\<open>ParserError\<close>, so statements about loading
  are made for headers of distinct non-empty names and records no longer than the header.
\<close>

definition pandas_blank :: "csv_record \<Rightarrow> bool" where
  "pandas_blank r =
     (case r of
        [] \<Rightarrow> True
      | [s] \<Rightarrow> s \<noteq> [] \<and> list_all (\<lambda>c. c = CHR '' '' \<or> c = CHR 0x09) s
      | _ \<Rightarrow> False)"

definition fill :: "nat \<Rightarrow> csv_record \<Rightarrow> csv_record" where
  "fill n r = r @ replicate (n - length r) []"

definition read_csv :: "csv_record list \<Rightarrow> py_error + dataframe" where
  "read_csv recs =
     (case filter (\<lambda>r. \<not> pandas_blank r) recs of
        [] \<Rightarrow> Inl EmptyDataError
      | h # rs \<Rightarrow>
          if list_ex (\<lambda>r. length h < length r) rs then Inl ParserError
          else Inr \<lparr>columns = h, frame_rows = map (fill (length h)) rs\<rparr>)"

definition load_dataframe :: "disk \<Rightarrow> py_error + dataframe" where
  "load_dataframe d = (case d of None \<Rightarrow> Inl FileNotFoundError | Some recs \<Rightarrow> read_csv recs)"

text \<open>
  A header that pandas takes as it is: no blank line (so it has a column), the names distinct
  and not empty.
\<close>

definition plain_names :: "string list \<Rightarrow> bool" where
  "plain_names h = (\<not> pandas_blank h \<and> distinct h \<and> [] \<notin> set h)"

text \<open>The rows of the table as \<^verbatim>\<open>csv.DictReader\<close> yields them.\<close>

definition rows_of :: "disk \<Rightarrow> dict_row list" where
  "rows_of d = (case d of None \<Rightarrow> [] | Some recs \<Rightarrow> reader_rows recs)"

text \<open>
  The data rows of the table as the store itself reads them back: the rows of the
  \<^verbatim>\<open>DictReader\<close>, each looked up by the names of the header, an absent field as the empty string.
\<close>

definition table_rows :: "disk \<Rightarrow> csv_record list" where
  "table_rows d =
     (case d of None \<Rightarrow> [] | Some recs \<Rightarrow> map (padded (fieldnames_of recs)) (reader_rows recs))"

section \<open>Flattening an extraction result\<close>

text \<open>
  What \<^verbatim>\<open>json.loads\<close> gives: \<^verbatim>\<open>None\<close>, booleans, integers, strings, lists, and dicts with
  string keys. (Numbers with a fraction are left out: their text is floating-point formatting.)
\<close>

datatype pyval =
  PNone | PBool bool | PInt int | PStr string | PList "pyval list" | PDict "(string \<times> pyval) list"

function str_nat :: "nat \<Rightarrow> string" where
  "str_nat n = (if n < 10 then [char_of (48 + n)] else str_nat (n div 10) @ [char_of (48 + n mod 10)])"
  by pat_completeness auto
termination
  by (relation "measure id") auto

definition str_int :: "int \<Rightarrow> string" where
  "str_int i = (if i < 0 then CHR ''-'' # str_nat (nat (- i)) else str_nat (nat i))"

text \<open>
  \<^verbatim>\<open>repr(v)\<close>. How Python quotes and escapes a string literal is the parameter \<open>quote\<close>.
\<close>

fun py_repr :: "(string \<Rightarrow> string) \<Rightarrow> pyval \<Rightarrow> string" where
  "py_repr quote PNone = ''None''"
| "py_repr quote (PBool b) = (if b then ''True'' else ''False'')"
| "py_repr quote (PInt i) = str_int i"
| "py_repr quote (PStr s) = quote s"
| "py_repr quote (PList xs) = ''['' @ join '', '' (map (py_repr quote) xs) @ '']''"
| "py_repr quote (PDict kvs) =
     ''{'' @ join '', '' (map (\<lambda>kv. quote (fst kv) @ '': '' @ py_repr quote (snd kv)) kvs) @ ''}''"

text \<open>\<^verbatim>\<open>str(v)\<close>: a string is its own text, any other value its \<^verbatim>\<open>repr\<close>.\<close>

definition py_str :: "(string \<Rightarrow> string) \<Rightarrow> pyval \<Rightarrow> string" where
  "py_str quote v = (case v of PStr s \<Rightarrow> s | _ \<Rightarrow> py_repr quote v)"

text \<open>
  \<^verbatim>\<open>json.dumps(v, ensure_ascii=False)\<close> with the default separators. How JSON quotes and
  escapes a string is the parameter \<open>jquote\<close>.
\<close>

fun json_dumps :: "(string \<Rightarrow> string) \<Rightarrow> pyval \<Rightarrow> string" where
  "json_dumps jquote PNone = ''null''"
| "json_dumps jquote (PBool b) = (if b then ''true'' else ''false'')"
| "json_dumps jquote (PInt i) = str_int i"
| "json_dumps jquote (PStr s) = jquote s"
| "json_dumps jquote (PList xs) = ''['' @ join '', '' (map (json_dumps jquote) xs) @ '']''"
| "json_dumps jquote (PDict kvs) =
     ''{'' @ join '', '' (map (\<lambda>kv. jquote (fst kv) @ '': '' @ json_dumps jquote (snd kv)) kvs) @ ''}''"

text \<open>
  The value conversion of \<^verbatim>\<open>_run_ollama_extraction\<close>:
  \<^verbatim>\<open>json.dumps(v, ensure_ascii=False) if isinstance(v, (dict, list)) else ("" if v is None else str(v))\<close>.
\<close>

definition normalize_value :: "(string \<Rightarrow> string) \<Rightarrow> (string \<Rightarrow> string) \<Rightarrow> pyval \<Rightarrow> string" where
  "normalize_value quote jquote v =
     (case v of
        PDict kvs \<Rightarrow> json_dumps jquote v
      | PList xs \<Rightarrow> json_dumps jquote v
      | _ \<Rightarrow> (if v = PNone then [] else py_str quote v))"

text \<open>The loop that fills \<^verbatim>\<open>normalized\<close>; data that is no dict leaves it empty.\<close>

definition normalize :: "(string \<Rightarrow> string) \<Rightarrow> (string \<Rightarrow> string) \<Rightarrow> pyval \<Rightarrow> row" where
  "normalize quote jquote data_v =
     (case data_v of
        PDict kvs \<Rightarrow> foldl (\<lambda>normalized kv. dict_set (fst kv) (normalize_value quote jquote (snd kv)) normalized) [] kvs
      | _ \<Rightarrow> [])"


text \<open>The value conversion of the worker: \<^verbatim>\<open>"" if v is None else str(v)\<close>.\<close>

definition flat_value :: "(string \<Rightarrow> string) \<Rightarrow> pyval \<Rightarrow> string" where
  "flat_value quote v = (if v = PNone then [] else py_str quote v)"

text \<open>\<^verbatim>\<open>bool(v)\<close>, for \<^verbatim>\<open>x or default\<close>.\<close>

fun truthy :: "pyval \<Rightarrow> bool" where
  "truthy PNone = False"
| "truthy (PBool b) = b"
| "truthy (PInt i) = (i \<noteq> 0)"
| "truthy (PStr s) = (s \<noteq> [])"
| "truthy (PList xs) = (xs \<noteq> [])"
| "truthy (PDict kvs) = (kvs \<noteq> [])"

text \<open>\<^verbatim>\<open>result.get(key, default) or default\<close>\<close>

definition get_or :: "(string \<times> pyval) list \<Rightarrow> string \<Rightarrow> pyval \<Rightarrow> pyval" where
  "get_or items k default_v =
     (let v = (case map_of items k of None \<Rightarrow> default_v | Some x \<Rightarrow> x)
      in if truthy v then v else default_v)"

text \<open>\<^verbatim>\<open>v.items()\<close>: only a dict has the method.\<close>

definition dict_items :: "pyval \<Rightarrow> py_error + (string \<times> pyval) list" where
  "dict_items v = (case v of PDict kvs \<Rightarrow> Inr kvs | _ \<Rightarrow> Inl AttributeError)"

text \<open>
  \<^verbatim>\<open>for tx in txs\<close>: a list gives its elements, a dict its keys, a string its characters;
  nothing else can be iterated.
\<close>

definition py_iter :: "pyval \<Rightarrow> py_error + pyval list" where
  "py_iter v =
     (case v of
        PList xs \<Rightarrow> Inr xs
      | PDict kvs \<Rightarrow> Inr (map (\<lambda>kv. PStr (fst kv)) kvs)
      | PStr s \<Rightarrow> Inr (map (\<lambda>c. PStr [c]) s)
      | _ \<Rightarrow> Inl TypeError)"

text \<open>\<^verbatim>\<open>for k, v in summary.items(): flat[f"summary_{k}"] = "" if v is None else str(v)\<close>\<close>

definition add_summary :: "(string \<Rightarrow> string) \<Rightarrow> (string \<times> pyval) list \<Rightarrow> row \<Rightarrow> row" where
  "add_summary quote items flat =
     foldl (\<lambda>f kv. dict_set (''summary_'' @ fst kv) (flat_value quote (snd kv)) f) flat items"

text \<open>\<^verbatim>\<open>for k, v in tx.items(): flat[str(k)] = "" if v is None else str(v)\<close>\<close>

definition add_fields :: "(string \<Rightarrow> string) \<Rightarrow> (string \<times> pyval) list \<Rightarrow> row \<Rightarrow> row" where
  "add_fields quote items flat =
     foldl (\<lambda>f kv. dict_set (fst kv) (flat_value quote (snd kv)) f) flat items"

text \<open>The body of \<^verbatim>\<open>for tx in txs\<close>, one transaction after the other.\<close>

fun flatten_txs :: "(string \<Rightarrow> string) \<Rightarrow> pyval \<Rightarrow> pyval list \<Rightarrow> py_error + row list" where
  "flatten_txs quote summary [] = Inr []"
| "flatten_txs quote summary (tx # txs) =
     (case dict_items summary of
        Inl e \<Rightarrow> Inl e
      | Inr sitems \<Rightarrow>
          (case dict_items tx of
             Inl e \<Rightarrow> Inl e
           | Inr titems \<Rightarrow>
               (case flatten_txs quote summary txs of
                  Inl e \<Rightarrow> Inl e
                | Inr flat_rows \<Rightarrow> Inr (add_fields quote titems (add_summary quote sitems []) # flat_rows))))"

text \<open>
  What the worker of \<^verbatim>\<open>_run_save_worker\<close> hands to the store for a \<^verbatim>\<open>result\<close>:
  \<^verbatim>\<open>sync_header_and_append_many(csv_path, flat_rows)\<close>, \<^verbatim>\<open>sync_header_and_append(csv_path, flat)\<close>,
  or the mapping itself, \<^verbatim>\<open>sync_header_and_append(csv_path, result)\<close>. A \<^verbatim>\<open>result\<close> of the
  JSON values that is no dict is no dataclass instance either, and \<^verbatim>\<open>asdict\<close> raises
  \<^verbatim>\<open>TypeError\<close>.
\<close>

datatype saved = SaveMany "row list" | SaveOne row | SaveMapping "(string \<times> pyval) list"

definition flatten :: "(string \<Rightarrow> string) \<Rightarrow> pyval \<Rightarrow> py_error + saved" where
  "flatten quote result =
     (case result of
        PDict items \<Rightarrow>
          (if ''transactions'' \<in> set (keys items) \<and> ''summary'' \<in> set (keys items) then
             (let summary = get_or items ''summary'' (PDict []);
                  txs = get_or items ''transactions'' (PList [])
              in case py_iter txs of
                   Inl e \<Rightarrow> Inl e
                 | Inr txl \<Rightarrow>
                     (case flatten_txs quote summary txl of
                        Inl e \<Rightarrow> Inl e
                      | Inr flat_rows \<Rightarrow>
                          if flat_rows \<noteq> [] then Inr (SaveMany flat_rows)
                          else (case dict_items summary of
                                  Inl e \<Rightarrow> Inl e
                                | Inr sitems \<Rightarrow> Inr (SaveOne (add_summary quote sitems [])))))
           else Inr (SaveMapping items))
      | _ \<Rightarrow> Inl TypeError)"

section \<open>The files the store writes, and the worker as a whole\<close>

text \<open>
  The shape of every file the store writes: a header of distinct names, and rows that all have
  the header's width.
\<close>

definition stored :: "disk \<Rightarrow> bool" where
  "stored d =
     (case d of None \<Rightarrow> True
      | Some recs \<Rightarrow>
          (case recs of [] \<Rightarrow> False
           | h # rs \<Rightarrow> distinct h \<and> list_all (\<lambda>r. length r = length h) rs))"

text \<open>A call whose row is a \<^verbatim>\<open>dict\<close>: no key twice.\<close>

fun dict_call :: "store_call \<Rightarrow> bool" where
  "dict_call (Append r) = distinct (keys r)"
| "dict_call (AppendMany rows) = True"
| "dict_call RemoveLast = True"

text \<open>
  In the program the worker's \<^verbatim>\<open>result\<close> is what \<^verbatim>\<open>_run_ollama_extraction\<close> returns: the
  normalized mapping, every value of which is a string.
\<close>

definition as_result :: "row \<Rightarrow> pyval" where
  "as_result normalized = PDict (map (\<lambda>kv. (fst kv, PStr (snd kv))) normalized)"

definition extract_and_flatten ::
    "(string \<Rightarrow> string) \<Rightarrow> (string \<Rightarrow> string) \<Rightarrow> pyval \<Rightarrow> py_error + saved" where
  "extract_and_flatten quote jquote data_v = flatten quote (as_result (normalize quote jquote data_v))"

section \<open>Effects on the file\<close>

lemma run_ops_append: "run_ops (xs @ ys) d = run_ops ys (run_ops xs d)"
  by (simp add: run_ops_def)

lemma run_ops_Nil: "run_ops [] d = d"
  by (simp add: run_ops_def)

lemma run_ops_Cons: "run_ops (x # xs) d = run_ops xs (apply_op x d)"
  by (simp add: run_ops_def)

lemma run_ops_writes: "run_ops (map WriteRec ws) (Some recs) = Some (recs @ ws)"
  by (induction ws arbitrary: recs) (simp_all add: run_ops_Nil run_ops_Cons)

lemma run_ops_rewrite: "run_ops (OpenW # map WriteRec ws) d = Some ws"
  by (simp add: run_ops_Cons run_ops_writes)

lemma run_ops_append_mode: "run_ops (OpenA # map WriteRec ws) d = Some (opened OpenA d @ ws)"
  by (simp add: run_ops_Cons run_ops_writes)

section \<open>Dictionaries and the rows of the reader\<close>

lemma dict_set_fresh: "k \<notin> fst ` set d \<Longrightarrow> dict_set k v d = d @ [(k, v)]"
  by (induction d) auto

lemma fold_dict_set_distinct:
  "distinct (map fst (acc @ kvs)) \<Longrightarrow>
     foldl (\<lambda>d kv. dict_set (fst kv) (snd kv) d) acc kvs = acc @ kvs"
proof (induction kvs arbitrary: acc)
  case Nil
  then show ?case by simp
next
  case (Cons kv kvs)
  from Cons.prems have fresh: "fst kv \<notin> fst ` set acc" by auto
  from Cons.prems have "distinct (map fst ((acc @ [kv]) @ kvs))" by simp
  from Cons.IH [OF this] fresh show ?case
    by (simp add: dict_set_fresh)
qed

lemma py_dict_distinct: "distinct (map fst kvs) \<Longrightarrow> py_dict kvs = kvs"
  using fold_dict_set_distinct [of "[]" kvs] by (simp add: py_dict_def)

lemma fold_none_distinct:
  "distinct (map fst acc @ ks) \<Longrightarrow>
     foldl (\<lambda>d k. dict_set k None d) acc ks = acc @ map (\<lambda>k. (k, None)) ks"
proof (induction ks arbitrary: acc)
  case Nil
  then show ?case by simp
next
  case (Cons k ks)
  from Cons.prems have fresh: "k \<notin> fst ` set acc" by auto
  from Cons.prems have "distinct (map fst (acc @ [(k, None)]) @ ks)" by auto
  from Cons.IH [OF this] fresh show ?case
    by (simp add: dict_set_fresh)
qed

lemma zip_take_left: "zip (take (length ys) xs) ys = zip xs ys"
  by (induction xs ys rule: list_induct2') simp_all

lemma reader_row_short:
  assumes "distinct h" and "length r \<le> length h"
  shows "reader_row h r =
    \<lparr>cells = zip h (map Some r @ replicate (length h - length r) None), extras = None\<rparr>"
proof -
  have d1: "distinct (map fst (zip h (map Some r)))"
    using assms by (simp add: map_fst_zip_take distinct_take)
  have fst_zip: "map fst (zip h (map Some r)) = take (length r) h"
    using assms by (simp add: map_fst_zip_take min_def)
  have d2: "distinct (map fst (zip h (map Some r)) @ drop (length r) h)"
    using assms by (simp add: fst_zip)
  have "zip h (map Some r) @ map (\<lambda>k. (k, None)) (drop (length r) h)
        = zip h (map Some r @ replicate (length h - length r) None)"
  proof -
    have "zip h (map Some r @ replicate (length h - length r) None)
          = zip (take (length r) h @ drop (length r) h) (map Some r @ replicate (length h - length r) None)"
      by simp
    also have "\<dots> = zip (take (length r) h) (map Some r) @ zip (drop (length r) h) (replicate (length h - length r) None)"
      using assms by (subst zip_append) simp_all
    also have "zip (take (length r) h) (map Some r) = zip h (map Some r)"
      using zip_take_left [of "map Some r" h] by simp
    also have "zip (drop (length r) h) (replicate (length h - length r) None) = map (\<lambda>k. (k, None)) (drop (length r) h)"
      by (simp add: zip_replicate2 map_replicate_const[symmetric] zip_map2) 
    finally show ?thesis by simp
  qed
  then show ?thesis
    using assms d2 by (simp add: reader_row_def Let_def py_dict_distinct [OF d1] fold_none_distinct)
qed

lemma cells_lookup:
  assumes "distinct h" and "length vs = length h"
  shows "map (\<lambda>k. field_text (cell_get \<lparr>cells = zip h vs, extras = e\<rparr> k)) h = map field_text vs"
proof (rule nth_equalityI)
  show "length (map (\<lambda>k. field_text (cell_get \<lparr>cells = zip h vs, extras = e\<rparr> k)) h) = length (map field_text vs)"
    using assms by simp
next
  fix i
  assume "i < length (map (\<lambda>k. field_text (cell_get \<lparr>cells = zip h vs, extras = e\<rparr> k)) h)"
  then have i: "i < length h" by simp
  with assms have "map_of (zip h vs) (h ! i) = Some (vs ! i)"
    by (simp add: map_of_zip_nth)
  with i assms show "map (\<lambda>k. field_text (cell_get \<lparr>cells = zip h vs, extras = e\<rparr> k)) h ! i = map field_text vs ! i"
    by (simp add: cell_get_def)
qed

lemma cells_lookup_absent:
  assumes "length vs = length h" and "set ks \<inter> set h = {}"
  shows "map (\<lambda>k. field_text (cell_get \<lparr>cells = zip h vs, extras = e\<rparr> k)) ks = replicate (length ks) []"
proof -
  have "\<And>k. k \<in> set ks \<Longrightarrow> map_of (zip h vs) k = None"
    using assms by (auto simp: map_of_eq_None_iff dest: set_zip_leftD)
  then have "\<And>k. k \<in> set ks \<Longrightarrow> field_text (cell_get \<lparr>cells = zip h vs, extras = e\<rparr> k) = []"
    by (simp add: cell_get_def field_text_def)
  then show ?thesis
    by (simp add: map_replicate_const [symmetric] cong: map_cong)
qed

lemma padded_reader_row:
  assumes "distinct h" and "length r \<le> length h" and "set ks \<inter> set h = {}"
  shows "padded (h @ ks) (reader_row h r) =
           r @ replicate (length h - length r) [] @ replicate (length ks) []"
proof -
  let ?vs = "map Some r @ replicate (length h - length r) None"
  have len: "length ?vs = length h" using assms by simp
  have "map field_text ?vs = r @ replicate (length h - length r) []"
    by (simp add: field_text_def comp_def)
  with cells_lookup [OF assms(1) len] cells_lookup_absent [OF len assms(3)]
  show ?thesis
    using assms by (simp add: padded_def reader_row_short)
qed

lemma padded_reader_row_same:
  assumes "distinct h" and "length r \<le> length h"
  shows "padded h (reader_row h r) = r @ replicate (length h - length r) []"
  using padded_reader_row [OF assms, of "[]"] by simp

lemma length_padded: "length (padded nf x) = length nf"
  by (simp add: padded_def)

lemma length_render: "length (render nf x) = length nf"
  by (simp add: render_def)

section \<open>The union of the header and the keys\<close>

lemma union_fields_snoc:
  "union_fields old (ks @ [k]) =
     (if k \<in> set (union_fields old ks) then union_fields old ks else union_fields old ks @ [k])"
  by (simp add: union_fields_def)

lemma union_fields_Nil: "union_fields old [] = old"
  by (simp add: union_fields_def)

lemma prefix_union_fields: "prefix old (union_fields old ks)"
  by (induction ks rule: rev_induct) (auto simp: union_fields_snoc union_fields_Nil)

lemma set_union_fields: "set (union_fields old ks) = set old \<union> set ks"
  by (induction ks rule: rev_induct) (auto simp: union_fields_snoc union_fields_Nil)

lemma distinct_union_fields: "distinct old \<Longrightarrow> distinct (union_fields old ks)"
  by (induction ks rule: rev_induct) (auto simp: union_fields_snoc union_fields_Nil)

lemma union_fields_same: "union_fields old ks = old \<longleftrightarrow> set ks \<subseteq> set old"
proof
  assume "union_fields old ks = old"
  then show "set ks \<subseteq> set old"
    using set_union_fields [of old ks] by auto
next
  assume "set ks \<subseteq> set old"
  then show "union_fields old ks = old"
    by (induction ks rule: rev_induct) (auto simp: union_fields_snoc union_fields_Nil)
qed

lemma set_order_first_seen: "set_order first_seen"
  by (simp add: set_order_def first_seen_def set_union_fields distinct_union_fields)

lemma set_order_last_added_first: "set_order last_added_first"
  by (simp add: set_order_def last_added_first_def first_seen_def set_union_fields distinct_union_fields)

section \<open>The shape of the effects, and the header after a call\<close>

lemma writerows_shape: "\<exists>ws. snd (writerows fn rs) = map WriteRec ws"
proof (induction rs)
  case Nil
  show ?case by simp
next
  case (Cons r rs)
  then obtain ws where ws: "snd (writerows fn rs) = map WriteRec ws" by blast
  show ?case
  proof (cases "dict_to_list fn r")
    case (Inl e)
    then show ?thesis by simp
  next
    case (Inr rec)
    with ws have "snd (writerows fn (r # rs)) = map WriteRec (rec # ws)"
      by (cases "writerows fn rs") simp
    then show ?thesis by blast
  qed
qed

lemma remove_last_shape:
  "snd (remove_last_row_from_csv d) = [] \<or>
   (\<exists>ws. snd (remove_last_row_from_csv d) = OpenW # map WriteRec (header_of d # ws))"
proof (cases d)
  case None
  then show ?thesis by (simp add: remove_last_row_from_csv_def)
next
  case (Some recs)
  obtain ws where ws: "snd (writerows (fieldnames_of recs) (butlast (reader_rows recs))) = map WriteRec ws"
    using writerows_shape by blast
  show ?thesis
  proof (cases "reader_rows recs = []")
    case True
    with Some show ?thesis by (simp add: remove_last_row_from_csv_def)
  next
    case False
    with Some ws have "snd (remove_last_row_from_csv d) = OpenW # map WriteRec (header_of d # ws)"
      by (auto simp: remove_last_row_from_csv_def header_of_def Let_def split: prod.splits sum.splits)
    then show ?thesis by blast
  qed
qed

lemma fieldnames_of_Cons: "fieldnames_of (h # rs) = h"
  by (simp add: fieldnames_of_def)

lemma run_ops_rewrite_Cons: "run_ops (OpenW # WriteRec h # map WriteRec ws) d = Some (h # ws)"
  using run_ops_rewrite [of "h # ws" d] by simp

lemma run_ops_append_one: "run_ops [OpenA, WriteRec x] (Some recs) = Some (recs @ [x])"
  using run_ops_append_mode [of "[x]" "Some recs"] by simp

lemma header_step_remove: "header_of (perform set_iter RemoveLast d) = header_of d"
  using remove_last_shape [of d]
  by (auto simp: perform_def run_ops_Nil run_ops_rewrite_Cons header_of_def fieldnames_of_Cons)

lemma header_step_append:
  "prefix (header_of d) (header_of (perform set_iter (Append r) d))"
proof (cases d)
  case None
  then show ?thesis by (simp add: header_of_def)
next
  case (Some recs)
  let ?old = "fieldnames_of recs"
  let ?new = "union_fields ?old (keys r)"
  show ?thesis
  proof (cases "?new = ?old")
    case True
    then have ops: "sync_header_and_append r (Some recs) = [OpenA, WriteRec (render ?old r)]"
      by (simp add: sync_header_and_append_def Let_def)
    have "fieldnames_of (recs @ [render ?old r]) = ?old"
      by (cases recs) (simp_all add: fieldnames_of_def render_def)
    with Some show ?thesis
      by (simp add: perform_def ops run_ops_append_one header_of_def)
  next
    case False
    then have "sync_header_and_append r (Some recs) =
        OpenW # WriteRec ?new # map WriteRec (map (padded ?new) (reader_rows recs) @ [render ?new r])"
      by (simp add: sync_header_and_append_def Let_def comp_def)
    with Some show ?thesis
      by (simp add: perform_def run_ops_rewrite_Cons header_of_def fieldnames_of_Cons prefix_union_fields
          del: list.map map_append)
  qed
qed

lemma header_step_many:
  "prefix (header_of d) (header_of (perform set_iter (AppendMany rows) d))"
proof (cases d)
  case None
  then show ?thesis by (simp add: header_of_def)
next
  case (Some recs)
  let ?old = "fieldnames_of recs"
  let ?new = "?old @ filter (\<lambda>k. k \<notin> set ?old) (set_iter (?old @ concat (map keys rows)))"
  have "sync_header_and_append_many set_iter rows (Some recs) =
        OpenW # WriteRec ?new # map WriteRec (map (padded ?new) (reader_rows recs) @ map (render ?new) rows)"
    by (simp add: sync_header_and_append_many_def Let_def comp_def)
  with Some show ?thesis
    by (simp add: perform_def run_ops_rewrite_Cons header_of_def fieldnames_of_Cons
        del: list.map map_append)
qed

lemma header_step: "prefix (header_of d) (header_of (perform set_iter c d))"
proof (cases c)
  case (Append r)
  then show ?thesis by (simp add: header_step_append)
next
  case (AppendMany rows)
  then show ?thesis by (simp add: header_step_many)
next
  case RemoveLast
  then show ?thesis by (simp add: header_step_remove)
qed

lemma perform_all_snoc: "perform_all set_iter (cs @ [c]) d = perform set_iter c (perform_all set_iter cs d)"
  by (simp add: perform_all_def)

lemma header_run: "prefix (header_of d) (header_of (perform_all set_iter cs d))"
proof (induction cs rule: rev_induct)
  case Nil
  show ?case by (simp add: perform_all_def)
next
  case (snoc c cs)
  have "prefix (header_of (perform_all set_iter cs d)) (header_of (perform_all set_iter (cs @ [c]) d))"
    by (simp add: perform_all_snoc header_step)
  with snoc show ?case by (rule prefix_order.trans)
qed

section \<open>What the appends write\<close>

lemma many_existing_ops:
  "sync_header_and_append_many set_iter rows (Some recs) =
     (let new_fields = fieldnames_of recs
            @ filter (\<lambda>k. k \<notin> set (fieldnames_of recs)) (set_iter (fieldnames_of recs @ concat (map keys rows)))
      in OpenW # WriteRec new_fields
           # map WriteRec (map (padded new_fields) (reader_rows recs) @ map (render new_fields) rows))"
  by (simp add: sync_header_and_append_many_def Let_def comp_def)

lemma no_new_fields:
  assumes "set_order set_iter" and "\<forall>r\<in>set rows. set (keys r) \<subseteq> set old"
  shows "filter (\<lambda>k. k \<notin> set old) (set_iter (old @ concat (map keys rows))) = []"
proof -
  have "set (set_iter (old @ concat (map keys rows))) = set (old @ concat (map keys rows))"
    using assms(1) by (simp add: set_order_def)
  also have "\<dots> \<subseteq> set old"
    using assms(2) by auto
  finally show ?thesis
    by (auto simp: filter_empty_conv)
qed

lemma reader_rows_Cons:
  "reader_rows (h # rs) = map (reader_row h) (filter (\<lambda>r. r \<noteq> []) rs)"
  by (simp add: reader_rows_def fieldnames_of_def)

lemma padded_rows_full:
  assumes "distinct h" and "h \<noteq> []" and "\<forall>x\<in>set rs. length x = length h"
  shows "map (padded h) (reader_rows (h # rs)) = rs"
proof -
  from assms have nonblank: "filter (\<lambda>r. r \<noteq> []) rs = rs"
    by (auto simp: filter_id_conv)
  have "\<And>x. x \<in> set rs \<Longrightarrow> padded h (reader_row h x) = x"
    using assms by (simp add: padded_reader_row_same)
  then have "map (\<lambda>x. padded h (reader_row h x)) rs = rs"
    by (simp add: map_idI)
  with nonblank show ?thesis
    by (simp add: reader_rows_Cons comp_def)
qed

lemma many_new_ops:
  "rows \<noteq> [] \<Longrightarrow> sync_header_and_append_many set_iter rows None =
     OpenW # WriteRec (set_iter (concat (map keys rows)))
       # map WriteRec (map (render (set_iter (concat (map keys rows)))) rows)"
  by (simp add: sync_header_and_append_many_def Let_def comp_def)

lemma render_nth:
  "i < length hdr \<Longrightarrow> render hdr r ! i = (case map_of r (hdr ! i) of None \<Rightarrow> [] | Some v \<Rightarrow> v)"
  by (simp add: render_def row_get_def)

lemma render_own_keys: "distinct (keys r) \<Longrightarrow> render (keys r) r = map snd r"
proof -
  assume "distinct (keys r)"
  then have "\<And>p. p \<in> set r \<Longrightarrow> map_of r (fst p) = Some (snd p)"
    by (simp add: keys_def)
  then have "\<And>p. p \<in> set r \<Longrightarrow> row_get r (fst p) = snd p"
    by (simp add: row_get_def)
  then show ?thesis
    by (simp add: render_def keys_def)
qed






section \<open>Loading a table\<close>

lemma length_fill: "length r \<le> n \<Longrightarrow> length (fill n r) = n"
  by (simp add: fill_def)

lemma fill_full: "length r = n \<Longrightarrow> fill n r = r"
  by (simp add: fill_def)

lemma fill_nth:
  "length r \<le> n \<Longrightarrow> j < n \<Longrightarrow> fill n r ! j = (if j < length r then r ! j else [])"
  by (simp add: fill_def nth_append)

lemma pandas_blank_Nil: "pandas_blank []"
  by (simp add: pandas_blank_def)

lemma pandas_blank_wide: "2 \<le> length r \<Longrightarrow> \<not> pandas_blank r"
  by (cases r rule: list.exhaust) (auto simp: pandas_blank_def split: list.splits)

lemma pandas_blank_one: "pandas_blank r \<Longrightarrow> r \<noteq> [] \<Longrightarrow> length r = 1"
  by (auto simp: pandas_blank_def split: list.splits)

lemma read_csv_table:
  assumes "\<not> pandas_blank h" and "\<forall>x\<in>set rs. length x \<le> length h"
  shows "read_csv (h # rs) =
    Inr \<lparr>columns = h, frame_rows = map (fill (length h)) (filter (\<lambda>r. \<not> pandas_blank r) rs)\<rparr>"
proof -
  have "\<not> list_ex (\<lambda>r. length h < length r) (filter (\<lambda>r. \<not> pandas_blank r) rs)"
    using assms(2) by (auto simp: list_ex_iff)
  with assms(1) show ?thesis
    by (simp add: read_csv_def)
qed

lemma read_csv_full:
  assumes "\<not> pandas_blank h" and "\<forall>x\<in>set rs. length x = length h"
  shows "read_csv (h # rs) = Inr \<lparr>columns = h, frame_rows = filter (\<lambda>r. \<not> pandas_blank r) rs\<rparr>"
proof -
  have "map (fill (length h)) (filter (\<lambda>r. \<not> pandas_blank r) rs) = filter (\<lambda>r. \<not> pandas_blank r) rs"
    using assms(2) by (intro map_idI) (simp add: fill_full)
  with read_csv_table [of h rs] assms show ?thesis by simp
qed

section \<open>Removing the last row of a table\<close>

lemma padded_reader_row_fill:
  "distinct h \<Longrightarrow> length r \<le> length h \<Longrightarrow> padded h (reader_row h r) = fill (length h) r"
  by (simp add: padded_reader_row_same fill_def)

lemma dict_to_list_reader_row:
  assumes "distinct h" and "length r \<le> length h"
  shows "dict_to_list h (reader_row h r) = Inr (fill (length h) r)"
proof -
  have "keys (cells (reader_row h r)) = h"
    using assms by (simp add: reader_row_short keys_def)
  moreover have "extras (reader_row h r) = None"
    using assms by (simp add: reader_row_short)
  ultimately show ?thesis
    using assms by (simp add: dict_to_list_def padded_reader_row_fill)
qed

lemma writerows_ok:
  "\<forall>x\<in>set xs. dict_to_list fn x = Inr (f x) \<Longrightarrow>
     writerows fn xs = (Inr (), map WriteRec (map f xs))"
  by (induction xs) simp_all



lemma remove_last_table:
  assumes "distinct h" and "\<forall>x\<in>set rs. length x \<le> length h"
    and "filter (\<lambda>r. r \<noteq> []) rs \<noteq> []"
  shows "remove_last_row_from_csv (Some (h # rs)) =
    (Inr True, OpenW # WriteRec h # map WriteRec (butlast (table_rows (Some (h # rs)))))"
proof -
  let ?nb = "filter (\<lambda>r. r \<noteq> []) rs"
  have "\<forall>x\<in>set (butlast (map (reader_row h) ?nb)).
          dict_to_list h x = Inr (padded h x)"
  proof
    fix x
    assume "x \<in> set (butlast (map (reader_row h) ?nb))"
    then have "x \<in> set (map (reader_row h) ?nb)" by (rule in_set_butlastD)
    then obtain r where "r \<in> set rs" and "x = reader_row h r" by auto
    with assms show "dict_to_list h x = Inr (padded h x)"
      by (simp add: dict_to_list_reader_row padded_reader_row_fill)
  qed
  then have "writerows h (butlast (map (reader_row h) ?nb))
      = (Inr (), map WriteRec (map (padded h) (butlast (map (reader_row h) ?nb))))"
    by (rule writerows_ok)
  moreover have "map (padded h) (butlast (map (reader_row h) ?nb)) = butlast (table_rows (Some (h # rs)))"
    by (simp add: table_rows_def fieldnames_of_Cons reader_rows_Cons map_butlast)
  ultimately show ?thesis
    using assms(3)
    by (simp add: remove_last_row_from_csv_def reader_rows_Cons fieldnames_of_Cons Let_def)
qed


lemma table_fileD:
  "table_file (h # rs) \<Longrightarrow> distinct h \<and> (\<forall>x\<in>set rs. length x \<le> length h)"
  by (simp add: table_file_def list_all_iff)

section \<open>The file after an append\<close>



lemma load_filled:
  assumes "plain_names hdr" and "\<forall>x\<in>set body. length x = length hdr"
  shows "load_dataframe (Some (hdr # body))
    = Inr \<lparr>columns = hdr, frame_rows = filter (\<lambda>r. \<not> pandas_blank r) body\<rparr>"
  using assms by (simp add: load_dataframe_def plain_names_def read_csv_full)

lemma many_after:
  assumes "set_order set_iter" and "d \<noteq> None \<or> rows \<noteq> []"
  shows "\<exists>hdr body. perform set_iter (AppendMany rows) d = Some (hdr # body)
      \<and> (\<forall>x\<in>set body. length x = length hdr)
      \<and> (\<forall>r\<in>set rows. render hdr r \<in> set body \<and> set (keys r) \<subseteq> set hdr)"
proof (cases d)
  case None
  with assms have ne: "rows \<noteq> []" by simp
  let ?hdr = "set_iter (concat (map keys rows))"
  have "perform set_iter (AppendMany rows) None = Some (?hdr # map (render ?hdr) rows)"
    by (simp only: perform_def effects.simps many_new_ops [OF ne] run_ops_rewrite_Cons)
  moreover have "\<forall>x\<in>set (map (render ?hdr) rows). length x = length ?hdr"
    by (simp add: length_render)
  moreover have "\<forall>r\<in>set rows. render ?hdr r \<in> set (map (render ?hdr) rows) \<and> set (keys r) \<subseteq> set ?hdr"
    using assms(1) by (auto simp: set_order_def)
  ultimately show ?thesis using None by blast
next
  case (Some recs)
  let ?old = "fieldnames_of recs"
  let ?hdr = "?old @ filter (\<lambda>k. k \<notin> set ?old) (set_iter (?old @ concat (map keys rows)))"
  let ?body = "map (padded ?hdr) (reader_rows recs) @ map (render ?hdr) rows"
  have "sync_header_and_append_many set_iter rows (Some recs) = OpenW # WriteRec ?hdr # map WriteRec ?body"
    by (simp add: many_existing_ops Let_def)
  then have "perform set_iter (AppendMany rows) (Some recs) = Some (?hdr # ?body)"
    by (simp only: perform_def effects.simps run_ops_rewrite_Cons)
  moreover have "\<forall>x\<in>set ?body. length x = length ?hdr"
    by (auto simp: length_render length_padded)
  moreover have "\<forall>r\<in>set rows. render ?hdr r \<in> set ?body \<and> set (keys r) \<subseteq> set ?hdr"
    using assms(1) by (auto simp: set_order_def)
  ultimately show ?thesis using Some by blast
qed

lemma append_after:
  assumes "d = None \<or> (\<exists>recs. d = Some recs \<and> table_file recs)"
    and "header_of (perform set_iter (Append r) d) \<noteq> []"
  shows "\<exists>hdr body. perform set_iter (Append r) d = Some (hdr # body)
      \<and> (\<forall>x\<in>set body. length x \<le> length hdr)
      \<and> render hdr r \<in> set body \<and> set (keys r) \<subseteq> set hdr"
proof (cases d)
  case None
  have "perform set_iter (Append r) None = Some (keys r # [render (keys r) r])"
    by (simp add: perform_def sync_header_and_append_def append_row_to_csv_def run_ops_def Let_def)
  with None show ?thesis by (simp add: length_render)
next
  case (Some recs)
  with assms(1) have tf: "table_file recs" by simp
  let ?old = "fieldnames_of recs"
  let ?new = "union_fields ?old (keys r)"
  show ?thesis
  proof (cases "?new = ?old")
    case True
    then have sub: "set (keys r) \<subseteq> set ?old" by (simp add: union_fields_same)
    from True have "sync_header_and_append r (Some recs) = [OpenA, WriteRec (render ?old r)]"
      by (simp add: sync_header_and_append_def Let_def)
    then have after: "perform set_iter (Append r) (Some recs) = Some (recs @ [render ?old r])"
      by (simp add: perform_def run_ops_append_one)
    show ?thesis
    proof (cases recs)
      case Nil
      with after assms(2) Some show ?thesis
        by (simp add: header_of_def fieldnames_of_def render_def)
    next
      case (Cons h rs)
      from tf Cons have "\<forall>x\<in>set rs. length x \<le> length h"
        using table_fileD by blast
      with after sub Some Cons show ?thesis
        by (simp add: fieldnames_of_Cons length_render)
    qed
  next
    case False
    let ?body = "map (padded ?new) (reader_rows recs) @ [render ?new r]"
    from False have "sync_header_and_append r (Some recs) = OpenW # WriteRec ?new # map WriteRec ?body"
      by (simp add: sync_header_and_append_def Let_def comp_def)
    then have "perform set_iter (Append r) (Some recs) = Some (?new # ?body)"
      by (simp only: perform_def effects.simps run_ops_rewrite_Cons)
    moreover have "\<forall>x\<in>set ?body. length x \<le> length ?new"
      by (auto simp: length_render length_padded)
    moreover have "render ?new r \<in> set ?body \<and> set (keys r) \<subseteq> set ?new"
      by (simp add: set_union_fields)
    ultimately show ?thesis using Some by blast
  qed
qed

lemma load_table:
  assumes "plain_names hdr" and "\<forall>x\<in>set body. length x \<le> length hdr"
  shows "load_dataframe (Some (hdr # body))
    = Inr \<lparr>columns = hdr,
           frame_rows = map (fill (length hdr)) (filter (\<lambda>r. \<not> pandas_blank r) body)\<rparr>"
  using assms by (simp add: load_dataframe_def plain_names_def read_csv_table)

section \<open>Every file the store writes is a table\<close>

text \<open>
  Started with no file, and given rows that are dicts, the store only ever leaves files with a
  header of distinct names and rows of the header's width. The statements below that assume a
  table file therefore cover every file the store has written itself.
\<close>

lemma stored_SomeI:
  "distinct h \<Longrightarrow> \<forall>x\<in>set rs. length x = length h \<Longrightarrow> stored (Some (h # rs))"
  by (simp add: stored_def list_all_iff)

lemma stored_SomeD:
  "stored (Some recs) \<Longrightarrow> \<exists>h rs. recs = h # rs \<and> distinct h \<and> (\<forall>x\<in>set rs. length x = length h)"
  by (cases recs) (simp_all add: stored_def list_all_iff)

lemma stored_table_file: "stored (Some recs) \<Longrightarrow> table_file recs"
  by (cases recs) (auto simp: stored_def table_file_def list_all_iff)

lemma stored_append:
  assumes "stored d" and "distinct (keys r)"
  shows "stored (perform set_iter (Append r) d)"
proof (cases d)
  case None
  have "perform set_iter (Append r) None = Some (keys r # [render (keys r) r])"
    by (simp add: perform_def sync_header_and_append_def append_row_to_csv_def run_ops_def Let_def)
  with None assms(2) show ?thesis
    by (simp add: stored_def length_render)
next
  case (Some recs)
  with assms(1) obtain h rs where recs: "recs = h # rs" and dh: "distinct h"
    and len: "\<forall>x\<in>set rs. length x = length h"
    using stored_SomeD by blast
  let ?new = "union_fields h (keys r)"
  show ?thesis
  proof (cases "?new = h")
    case True
    then have "sync_header_and_append r (Some (h # rs)) = [OpenA, WriteRec (render h r)]"
      by (simp add: sync_header_and_append_def Let_def fieldnames_of_Cons)
    then have "perform set_iter (Append r) (Some (h # rs)) = Some (h # (rs @ [render h r]))"
      by (simp add: perform_def run_ops_append_one)
    moreover have "stored (Some (h # (rs @ [render h r])))"
      using dh len by (intro stored_SomeI) (auto simp: length_render)
    ultimately show ?thesis by (simp add: Some recs)
  next
    case False
    let ?body = "map (padded ?new) (reader_rows (h # rs)) @ [render ?new r]"
    from False have "sync_header_and_append r (Some (h # rs)) = OpenW # WriteRec ?new # map WriteRec ?body"
      by (simp add: sync_header_and_append_def Let_def comp_def fieldnames_of_Cons)
    then have "perform set_iter (Append r) (Some (h # rs)) = Some (?new # ?body)"
      by (simp only: perform_def effects.simps run_ops_rewrite_Cons)
    moreover have "stored (Some (?new # ?body))"
      using dh by (intro stored_SomeI) (auto simp: distinct_union_fields length_render length_padded)
    ultimately show ?thesis by (simp add: Some recs)
  qed
qed

lemma stored_many:
  assumes "stored d" and "set_order set_iter"
  shows "stored (perform set_iter (AppendMany rows) d)"
proof (cases d)
  case None
  show ?thesis
  proof (cases "rows = []")
    case True
    with None show ?thesis
      by (simp add: perform_def sync_header_and_append_many_def run_ops_Nil stored_def)
  next
    case False
    let ?hdr = "set_iter (concat (map keys rows))"
    have "perform set_iter (AppendMany rows) None = Some (?hdr # map (render ?hdr) rows)"
      by (simp only: perform_def effects.simps many_new_ops [OF False] run_ops_rewrite_Cons)
    moreover have "stored (Some (?hdr # map (render ?hdr) rows))"
      using assms(2) by (intro stored_SomeI) (auto simp: set_order_def length_render)
    ultimately show ?thesis by (simp add: None)
  qed
next
  case (Some recs)
  with assms(1) obtain h rs where recs: "recs = h # rs" and dh: "distinct h"
    using stored_SomeD by blast
  let ?hdr = "h @ filter (\<lambda>k. k \<notin> set h) (set_iter (h @ concat (map keys rows)))"
  let ?body = "map (padded ?hdr) (reader_rows (h # rs)) @ map (render ?hdr) rows"
  have "sync_header_and_append_many set_iter rows (Some (h # rs)) = OpenW # WriteRec ?hdr # map WriteRec ?body"
    by (simp add: many_existing_ops Let_def fieldnames_of_Cons)
  then have "perform set_iter (AppendMany rows) (Some (h # rs)) = Some (?hdr # ?body)"
    by (simp only: perform_def effects.simps run_ops_rewrite_Cons)
  moreover have "distinct ?hdr"
    using dh assms(2) by (auto simp: set_order_def)
  then have "stored (Some (?hdr # ?body))"
    by (intro stored_SomeI) (auto simp: length_render length_padded)
  ultimately show ?thesis by (simp add: Some recs)
qed

lemma stored_remove:
  assumes "stored d"
  shows "stored (perform set_iter RemoveLast d)"
proof (cases d)
  case None
  then show ?thesis
    by (simp add: perform_def remove_last_row_from_csv_def run_ops_Nil stored_def)
next
  case (Some recs)
  with assms obtain h rs where recs: "recs = h # rs" and dh: "distinct h"
    and len: "\<forall>x\<in>set rs. length x = length h"
    using stored_SomeD by blast
  let ?nb = "filter (\<lambda>r. r \<noteq> []) rs"
  from len have len': "\<forall>x\<in>set rs. length x \<le> length h" by simp
  show ?thesis
  proof (cases "?nb = []")
    case True
    then have "remove_last_row_from_csv (Some (h # rs)) = (Inr False, [])"
      by (simp add: remove_last_row_from_csv_def reader_rows_Cons)
    with assms show ?thesis
      by (simp add: perform_def run_ops_Nil Some recs)
  next
    case False
    let ?rows = "table_rows (Some (h # rs))"
    have "remove_last_row_from_csv (Some (h # rs)) =
        (Inr True, OpenW # WriteRec h # map WriteRec (butlast ?rows))"
      using dh len' False by (rule remove_last_table)
    then have "perform set_iter RemoveLast (Some (h # rs)) = Some (h # butlast ?rows)"
      by (simp add: perform_def run_ops_rewrite_Cons)
    moreover have "\<forall>x\<in>set (butlast ?rows). length x = length h"
    proof
      fix x assume "x \<in> set (butlast ?rows)"
      then have "x \<in> set ?rows" by (rule in_set_butlastD)
      then show "length x = length h"
        by (auto simp: table_rows_def fieldnames_of_Cons length_padded)
    qed
    with dh have "stored (Some (h # butlast ?rows))" by (rule stored_SomeI)
    ultimately show ?thesis by (simp add: Some recs)
  qed
qed

lemma stored_perform:
  "stored d \<Longrightarrow> set_order set_iter \<Longrightarrow> dict_call c \<Longrightarrow> stored (perform set_iter c d)"
  by (cases c) (simp_all add: stored_append stored_many stored_remove)

lemma stored_perform_all:
  "stored d \<Longrightarrow> set_order set_iter \<Longrightarrow> \<forall>c\<in>set cs. dict_call c \<Longrightarrow>
     stored (perform_all set_iter cs d)"
  by (induction cs rule: rev_induct) (simp_all add: perform_all_def stored_perform)

lemma reachable_table_file:
  assumes "set_order set_iter" and "\<forall>c\<in>set cs. dict_call c"
    and "perform_all set_iter cs None = Some recs"
  shows "table_file recs"
proof -
  have "stored (perform_all set_iter cs None)"
    using assms(1,2) by (intro stored_perform_all) (simp_all add: stored_def)
  with assms(3) show ?thesis by (simp add: stored_table_file)
qed

section \<open>The worker on a structured model output\<close>

text \<open>
  The flattening of the worker is stated for the value \<^verbatim>\<open>result\<close> it branches on. When that value
  comes from \<^verbatim>\<open>_run_ollama_extraction\<close>, the summary and the transactions of a structured model
  output have already been turned into JSON text, and the worker's loop over them raises
  \<^verbatim>\<open>AttributeError\<close>, which the worker reports without saving a row.
\<close>

lemma structured_model_output_raises:
  "extract_and_flatten quote jquote
     (PDict [(''summary'', PDict sitems), (''transactions'', PList txs)]) = Inl AttributeError"
  by (simp add: extract_and_flatten_def normalize_def normalize_value_def as_result_def flatten_def
      keys_def get_or_def py_iter_def dict_items_def)

section \<open>The bytes of the file after a failure\<close>






section \<open>The file after a removal\<close>




section \<open>The entry of an appended row\<close>

lemma render_entry:
  "length (render hdr x) = length hdr
   \<and> (\<forall>i<length hdr. render hdr x ! i = (case map_of x (hdr ! i) of None \<Rightarrow> [] | Some v \<Rightarrow> v))"
  by (simp add: length_render render_nth)

section \<open>The worker on the mapping it receives\<close>






section \<open>The appends where the keys are known, and where no table exists\<close>

text \<open>
  When every key of the incoming row is a column of the header, the single-row append opens the
  file for appending and writes that row only. The multi-row append then writes the old header,
  and on a file as the store writes it, with a column, the old content followed by the rows.
\<close>

lemma append_existing_columns:
  "(set (keys r) \<subseteq> set (header_of (Some recs)) \<longrightarrow>
      sync_header_and_append r (Some recs) = [OpenA, WriteRec (render (header_of (Some recs)) r)]
      \<and> perform set_iter (Append r) (Some recs) = Some (recs @ [render (header_of (Some recs)) r])
      \<and> header_of (perform set_iter (Append r) (Some recs)) = header_of (Some recs))
   \<and> (set_order set_iter \<longrightarrow> (\<forall>x\<in>set rows. set (keys x) \<subseteq> set h) \<longrightarrow>
        sync_header_and_append_many set_iter rows (Some (h # rs)) =
          OpenW # WriteRec h # map WriteRec (map (padded h) (reader_rows (h # rs)) @ map (render h) rows)
        \<and> header_of (perform set_iter (AppendMany rows) (Some (h # rs))) = h
        \<and> (distinct h \<longrightarrow> h \<noteq> [] \<longrightarrow> (\<forall>x\<in>set rs. length x = length h) \<longrightarrow>
             perform set_iter (AppendMany rows) (Some (h # rs)) = Some ((h # rs) @ map (render h) rows)))"
proof (intro conjI impI)
  assume sub: "set (keys r) \<subseteq> set (header_of (Some recs))"
  then have same: "union_fields (fieldnames_of recs) (keys r) = fieldnames_of recs"
    by (simp add: union_fields_same header_of_def)
  then show ops: "sync_header_and_append r (Some recs) = [OpenA, WriteRec (render (header_of (Some recs)) r)]"
    by (simp add: sync_header_and_append_def Let_def header_of_def)
  then show after: "perform set_iter (Append r) (Some recs) = Some (recs @ [render (header_of (Some recs)) r])"
    by (simp add: perform_def run_ops_append_one)
  have "fieldnames_of (recs @ [render (fieldnames_of recs) r]) = fieldnames_of recs"
    by (cases recs) (simp_all add: fieldnames_of_def render_def)
  with after show "header_of (perform set_iter (Append r) (Some recs)) = header_of (Some recs)"
    by (simp add: header_of_def)
next
  assume so: "set_order set_iter" and sub: "\<forall>x\<in>set rows. set (keys x) \<subseteq> set h"
  have none: "filter (\<lambda>k. k \<notin> set h) (set_iter (h @ concat (map keys rows))) = []"
    using no_new_fields [OF so sub] .
  show ops: "sync_header_and_append_many set_iter rows (Some (h # rs)) =
          OpenW # WriteRec h # map WriteRec (map (padded h) (reader_rows (h # rs)) @ map (render h) rows)"
    by (simp add: many_existing_ops fieldnames_of_Cons none Let_def del: map_append)
  then have after: "perform set_iter (AppendMany rows) (Some (h # rs)) =
      Some (h # map (padded h) (reader_rows (h # rs)) @ map (render h) rows)"
    by (simp add: perform_def run_ops_rewrite_Cons del: map_append)
  then show "header_of (perform set_iter (AppendMany rows) (Some (h # rs))) = h"
    by (simp add: header_of_def fieldnames_of_Cons)
  assume "distinct h" and "h \<noteq> []" and "\<forall>x\<in>set rs. length x = length h"
  then have "map (padded h) (reader_rows (h # rs)) = rs"
    by (rule padded_rows_full)
  with after show "perform set_iter (AppendMany rows) (Some (h # rs)) = Some ((h # rs) @ map (render h) rows)"
    by simp
qed

text \<open>
  With no table at the path the multi-row append of no rows does nothing; of one row or more it
  creates the file with a header that lists every key once, in the order of the set, and writes
  every row against it. The single-row append creates the file with the keys of its row.
\<close>

lemma create_table:
  "sync_header_and_append_many set_iter [] None = []
   \<and> perform set_iter (AppendMany []) None = None
   \<and> (set_order set_iter \<longrightarrow> rows \<noteq> [] \<longrightarrow>
        (\<exists>hdr. perform set_iter (AppendMany rows) None = Some (hdr # map (render hdr) rows)
           \<and> hdr = set_iter (concat (map keys rows))
           \<and> set hdr = (\<Union>x\<in>set rows. set (keys x))
           \<and> distinct hdr
           \<and> (\<forall>x\<in>set rows. \<forall>i<length hdr.
                 render hdr x ! i = (case map_of x (hdr ! i) of None \<Rightarrow> [] | Some v \<Rightarrow> v))))
   \<and> perform set_iter (Append r) None = Some [keys r, render (keys r) r]
   \<and> (distinct (keys r) \<longrightarrow> render (keys r) r = map snd r)"
proof (intro conjI impI)
  show "sync_header_and_append_many set_iter [] None = []"
    by (simp add: sync_header_and_append_many_def)
  then show "perform set_iter (AppendMany []) None = None"
    by (simp add: perform_def run_ops_Nil)
next
  assume so: "set_order set_iter" and ne: "rows \<noteq> []"
  let ?hdr = "set_iter (concat (map keys rows))"
  have "perform set_iter (AppendMany rows) None = Some (?hdr # map (render ?hdr) rows)"
    by (simp only: perform_def effects.simps many_new_ops [OF ne] run_ops_rewrite_Cons)
  moreover have "set ?hdr = (\<Union>x\<in>set rows. set (keys x))" and "distinct ?hdr"
    using so by (simp_all add: set_order_def)
  moreover have "\<forall>x\<in>set rows. \<forall>i<length ?hdr.
      render ?hdr x ! i = (case map_of x (?hdr ! i) of None \<Rightarrow> [] | Some v \<Rightarrow> v)"
    by (simp add: render_nth)
  ultimately show "\<exists>hdr. perform set_iter (AppendMany rows) None = Some (hdr # map (render hdr) rows)
           \<and> hdr = set_iter (concat (map keys rows))
           \<and> set hdr = (\<Union>x\<in>set rows. set (keys x))
           \<and> distinct hdr
           \<and> (\<forall>x\<in>set rows. \<forall>i<length hdr.
                 render hdr x ! i = (case map_of x (hdr ! i) of None \<Rightarrow> [] | Some v \<Rightarrow> v))"
    by blast
next
  show "perform set_iter (Append r) None = Some [keys r, render (keys r) r]"
    by (simp add: perform_def sync_header_and_append_def append_row_to_csv_def run_ops_def Let_def)
next
  assume "distinct (keys r)"
  then show "render (keys r) r = map snd r" by (rule render_own_keys)
qed

section \<open>C1: appending rows whose keys are all columns\<close>

text \<open>
  C1, at the input where the code departs from it. The table has the header \<open>a\<close> and one row;
  the incoming row has the only key \<open>a\<close>, a column of the header. The multi-row append opens
  the file for writing and writes the header, the existing row and the incoming row: a full
  rewrite. The single-row append, for the same row on the same table, opens the file for
  appending and writes the incoming row only.
\<close>

theorem C1_many_rewrites:
  "set (keys [(''a'', ''2'')]) \<subseteq> set (header_of (Some [[''a''], [''1'']]))
   \<and> sync_header_and_append_many first_seen [[(''a'', ''2'')]] (Some [[''a''], [''1'']])
       = [OpenW, WriteRec [''a''], WriteRec [''1''], WriteRec [''2'']]
   \<and> sync_header_and_append [(''a'', ''2'')] (Some [[''a''], [''1'']])
       = [OpenA, WriteRec [''2'']]"
  by (simp add: sync_header_and_append_many_def sync_header_and_append_def first_seen_def
      union_fields_def header_of_def fieldnames_of_def keys_def render_def row_get_def
      reader_rows_def reader_row_def py_dict_def padded_def cell_get_def field_text_def Let_def)

section \<open>C2: failures during a write\<close>




section \<open>C3: the loader\<close>

text \<open>
  C3, with the missing file and the blank lines stated as the code has them.
  \<^verbatim>\<open>load_dataframe\<close> raises \<^verbatim>\<open>FileNotFoundError\<close> when no file exists at the path. For a file with a
  header that pandas takes as it is and records no longer than the header, it returns the header
  as the columns and, in the order of the file, one row for every record that is no blank line
  for pandas (a record with no field, or of one field that holds only spaces or tabs, is
  skipped); in such a row a field that the record lacks is the empty string.
\<close>

theorem C3_load:
  "load_dataframe None = Inl FileNotFoundError
   \<and> (plain_names h \<longrightarrow> (\<forall>x\<in>set rs. length x \<le> length h) \<longrightarrow>
        (\<exists>df. load_dataframe (Some (h # rs)) = Inr df
           \<and> columns df = h
           \<and> frame_rows df = map (fill (length h)) (filter (\<lambda>x. \<not> pandas_blank x) rs)
           \<and> (\<forall>x\<in>set rs. \<not> pandas_blank x \<longrightarrow>
                 fill (length h) x \<in> set (frame_rows df)
                 \<and> length (fill (length h) x) = length h
                 \<and> (\<forall>j<length h. fill (length h) x ! j = (if j < length x then x ! j else [])))))"
proof -
  have p1: "load_dataframe None = Inl FileNotFoundError"
    by (simp add: load_dataframe_def)
  have p2: "\<exists>df. load_dataframe (Some (h # rs)) = Inr df
           \<and> columns df = h
           \<and> frame_rows df = map (fill (length h)) (filter (\<lambda>x. \<not> pandas_blank x) rs)
           \<and> (\<forall>x\<in>set rs. \<not> pandas_blank x \<longrightarrow>
                 fill (length h) x \<in> set (frame_rows df)
                 \<and> length (fill (length h) x) = length h
                 \<and> (\<forall>j<length h. fill (length h) x ! j = (if j < length x then x ! j else [])))"
    if pn: "plain_names h" and rows: "\<forall>x\<in>set rs. length x \<le> length h"
  proof -
    have load: "load_dataframe (Some (h # rs))
        = Inr \<lparr>columns = h, frame_rows = map (fill (length h)) (filter (\<lambda>x. \<not> pandas_blank x) rs)\<rparr>"
      using pn rows by (rule load_table)
    have "\<forall>x\<in>set rs. \<not> pandas_blank x \<longrightarrow>
                 fill (length h) x \<in> set (map (fill (length h)) (filter (\<lambda>x. \<not> pandas_blank x) rs))
                 \<and> length (fill (length h) x) = length h
                 \<and> (\<forall>j<length h. fill (length h) x ! j = (if j < length x then x ! j else []))"
      using rows by (simp add: length_fill fill_nth)
    with load show ?thesis by simp
  qed
  from p1 p2 show ?thesis by blast
qed

text \<open>
  C3 as stated fails where no file exists: the loader raises, it does not return the empty table.
\<close>

theorem C3_missing_file_counterexample:
  "load_dataframe None = Inl FileNotFoundError
   \<and> load_dataframe None \<noteq> Inr \<lparr>columns = [], frame_rows = []\<rparr>"
  by (simp add: load_dataframe_def)

text \<open>
  A table whose first row was written before the column \<open>c\<close> was added, with a blank line.
\<close>

theorem C3_load_witness:
  "load_dataframe (Some [[''a'', ''b'', ''c''], [''1'', ''2''], [], [''3'', [], ''4'']])
     = Inr \<lparr>columns = [''a'', ''b'', ''c''], frame_rows = [[''1'', ''2'', []], [''3'', [], ''4'']]\<rparr>"
  using C3_load [where h = "[''a'', ''b'', ''c'']" and rs = "[[''1'', ''2''], [], [''3'', [], ''4'']]"]
  by (simp add: plain_names_def pandas_blank_def load_dataframe_def read_csv_def fill_def)

section \<open>C4: creating the table\<close>

text \<open>
  C4, at the input where the code departs from it. No table exists; the rows are \<open>{a: "1"}\<close>
  and \<open>{b: "2"}\<close>, so the keys are first seen in the order \<open>a\<close>, \<open>b\<close>. In a run in which Python
  iterates the set of the keys as \<open>b\<close>, \<open>a\<close>, the multi-row append creates the table with the
  header \<open>b\<close>, \<open>a\<close>. The single-row append keeps the order of the keys of its row.
\<close>

theorem C4_header_order:
  "set_order last_added_first
   \<and> header_of (perform last_added_first (AppendMany [[(''a'', ''1'')], [(''b'', ''2'')]]) None) = [''b'', ''a'']
   \<and> first_seen (concat (map keys [[(''a'', ''1'')], [(''b'', ''2'')]])) = [''a'', ''b'']
   \<and> header_of (perform last_added_first (Append [(''a'', ''1''), (''b'', ''2'')]) None) = [''a'', ''b'']"
  using set_order_last_added_first
  by (simp add: perform_def sync_header_and_append_many_def sync_header_and_append_def
      append_row_to_csv_def run_ops_def last_added_first_def first_seen_def union_fields_def
      header_of_def fieldnames_of_def keys_def Let_def)

section \<open>C5: removing the last row\<close>




section \<open>C6: the header only grows\<close>

text \<open>
  C6. Header monotonicity along every sequence of calls of the store (single-row appends,
  multi-row appends and removals of the last row, in any order and from any file): the header
  before the \<open>k\<close>-th call is a prefix of the header after it, so every column stays, at its
  position; and a removal of the last row leaves the header as it is.
\<close>

theorem C6_header_monotone:
  "k < length cs \<Longrightarrow>
     prefix (header_of (perform_all set_iter (take k cs) d))
            (header_of (perform_all set_iter (take (Suc k) cs) d))
     \<and> set (header_of (perform_all set_iter (take k cs) d))
         \<subseteq> set (header_of (perform_all set_iter (take (Suc k) cs) d))
     \<and> (cs ! k = RemoveLast \<longrightarrow>
          header_of (perform_all set_iter (take (Suc k) cs) d)
            = header_of (perform_all set_iter (take k cs) d))"
proof -
  assume k: "k < length cs"
  let ?before = "perform_all set_iter (take k cs) d"
  have step: "perform_all set_iter (take (Suc k) cs) d = perform set_iter (cs ! k) ?before"
    using k by (simp add: take_Suc_conv_app_nth perform_all_snoc)
  have p: "prefix (header_of ?before) (header_of (perform set_iter (cs ! k) ?before))"
    by (rule header_step)
  then have "set (header_of ?before) \<subseteq> set (header_of (perform set_iter (cs ! k) ?before))"
    by (rule set_mono_prefix)
  with p show ?thesis
    by (simp add: step header_step_remove)
qed

text \<open>
  The scenario of the specification: two appends, the second adding a column, then a removal.
\<close>

theorem C6_header_monotone_witness:
  "prefix (header_of (perform_all first_seen (take 1 [Append [(''a'', ''1''), (''b'', ''2'')], Append [(''a'', ''3''), (''c'', ''4'')], RemoveLast]) None))
          (header_of (perform_all first_seen (take 2 [Append [(''a'', ''1''), (''b'', ''2'')], Append [(''a'', ''3''), (''c'', ''4'')], RemoveLast]) None))
   \<and> header_of (perform_all first_seen (take 2 [Append [(''a'', ''1''), (''b'', ''2'')], Append [(''a'', ''3''), (''c'', ''4'')], RemoveLast]) None) = [''a'', ''b'', ''c'']
   \<and> header_of (perform_all first_seen (take 3 [Append [(''a'', ''1''), (''b'', ''2'')], Append [(''a'', ''3''), (''c'', ''4'')], RemoveLast]) None) = [''a'', ''b'', ''c'']"
  using C6_header_monotone [of 1 "[Append [(''a'', ''1''), (''b'', ''2'')], Append [(''a'', ''3''), (''c'', ''4'')], RemoveLast]" first_seen None]
    C6_header_monotone [of 2 "[Append [(''a'', ''1''), (''b'', ''2'')], Append [(''a'', ''3''), (''c'', ''4'')], RemoveLast]" first_seen None]
  by (simp add: perform_all_def perform_def run_ops_def sync_header_and_append_def append_row_to_csv_def
      remove_last_row_from_csv_def header_of_def fieldnames_of_def keys_def render_def row_get_def
      union_fields_def reader_rows_def reader_row_def py_dict_def padded_def cell_get_def field_text_def
      dict_to_list_def Let_def)

section \<open>C7: flattening a structured result\<close>

text \<open>
  C7, at the inputs where the code departs from it. For the model outputs
  \<open>{summary: {a: "1"}, transactions: [{b: "2"}, {b: "3"}]}\<close> and
  \<open>{summary: {a: "1"}, transactions: []}\<close> the worker receives the mapping in which the summary
  and the transactions are already JSON text, loops over the characters of that text and raises
  \<^verbatim>\<open>AttributeError\<close>: no row is built. The flattening code alone, given the nested values, would
  build the two rows \<open>{summary_a: "1", b: "2"}\<close>, \<open>{summary_a: "1", b: "3"}\<close> and the one row
  \<open>{summary_a: "1"}\<close>.
\<close>

theorem C7_structured_output_raises:
  "extract_and_flatten quote jquote
     (PDict [(''summary'', PDict [(''a'', PStr ''1'')]),
             (''transactions'', PList [PDict [(''b'', PStr ''2'')], PDict [(''b'', PStr ''3'')]])])
     = Inl AttributeError
   \<and> extract_and_flatten quote jquote
       (PDict [(''summary'', PDict [(''a'', PStr ''1'')]), (''transactions'', PList [])])
     = Inl AttributeError
   \<and> flatten quote
       (PDict [(''summary'', PDict [(''a'', PStr ''1'')]),
               (''transactions'', PList [PDict [(''b'', PStr ''2'')], PDict [(''b'', PStr ''3'')]])])
     = Inr (SaveMany [[(''summary_a'', ''1''), (''b'', ''2'')], [(''summary_a'', ''1''), (''b'', ''3'')]])
   \<and> flatten quote (PDict [(''summary'', PDict [(''a'', PStr ''1'')]), (''transactions'', PList [])])
     = Inr (SaveOne [(''summary_a'', ''1'')])"
  by (simp add: structured_model_output_raises flatten_def keys_def get_or_def py_iter_def
      dict_items_def add_summary_def add_fields_def flat_value_def py_str_def)

section \<open>C8: appending and loading\<close>

text \<open>
  C8, for the rows that the loader reads. After a multi-row append (to any file, or to none),
  or a single-row append (to no file, or to a table file: distinct column names, no row longer
  than the header), if the header of the result is one that pandas takes as it is, loading
  succeeds, the columns are the header, every key of an appended row is a column, and for every
  appended row that is no blank line for pandas when written (it is one only when the table has
  a single column and the row's value for it is not empty and holds only spaces or tabs) the
  loaded table has an entry that holds the row's value in the column of each of its keys and the
  empty string in every other column.
\<close>

theorem C8_round_trip:
  "(set_order set_iter \<longrightarrow> plain_names (header_of (perform set_iter (AppendMany rows) d)) \<longrightarrow>
      (\<exists>df. load_dataframe (perform set_iter (AppendMany rows) d) = Inr df
         \<and> columns df = header_of (perform set_iter (AppendMany rows) d)
         \<and> (\<forall>x\<in>set rows. set (keys x) \<subseteq> set (columns df)
               \<and> (\<not> pandas_blank (render (columns df) x) \<longrightarrow>
                    (\<exists>e\<in>set (frame_rows df). length e = length (columns df)
                       \<and> (\<forall>i<length (columns df).
                             e ! i = (case map_of x (columns df ! i) of None \<Rightarrow> [] | Some v \<Rightarrow> v)))))))
   \<and> ((d = None \<or> (\<exists>recs. d = Some recs \<and> table_file recs)) \<longrightarrow>
        plain_names (header_of (perform set_iter (Append r) d)) \<longrightarrow>
      (\<exists>df. load_dataframe (perform set_iter (Append r) d) = Inr df
         \<and> columns df = header_of (perform set_iter (Append r) d)
         \<and> set (keys r) \<subseteq> set (columns df)
         \<and> (\<not> pandas_blank (render (columns df) r) \<longrightarrow>
              (\<exists>e\<in>set (frame_rows df). length e = length (columns df)
                 \<and> (\<forall>i<length (columns df).
                       e ! i = (case map_of r (columns df ! i) of None \<Rightarrow> [] | Some v \<Rightarrow> v))))))"
proof -
  have many: "\<exists>df. load_dataframe (perform set_iter (AppendMany rows) d) = Inr df
         \<and> columns df = header_of (perform set_iter (AppendMany rows) d)
         \<and> (\<forall>x\<in>set rows. set (keys x) \<subseteq> set (columns df)
               \<and> (\<not> pandas_blank (render (columns df) x) \<longrightarrow>
                    (\<exists>e\<in>set (frame_rows df). length e = length (columns df)
                       \<and> (\<forall>i<length (columns df).
                             e ! i = (case map_of x (columns df ! i) of None \<Rightarrow> [] | Some v \<Rightarrow> v)))))"
    if so: "set_order set_iter" and pn: "plain_names (header_of (perform set_iter (AppendMany rows) d))"
  proof -
    have "d \<noteq> None \<or> rows \<noteq> []"
    proof (rule ccontr)
      assume "\<not> (d \<noteq> None \<or> rows \<noteq> [])"
      then have "perform set_iter (AppendMany rows) d = None"
        by (simp add: perform_def sync_header_and_append_many_def run_ops_Nil)
      with pn show False by (simp add: header_of_def plain_names_def pandas_blank_Nil)
    qed
    with many_after [OF so] obtain hdr body
      where after: "perform set_iter (AppendMany rows) d = Some (hdr # body)"
        and len: "\<forall>x\<in>set body. length x = length hdr"
        and rows: "\<forall>x\<in>set rows. render hdr x \<in> set body \<and> set (keys x) \<subseteq> set hdr"
      by blast
    from pn after have pn': "plain_names hdr"
      by (simp add: header_of_def fieldnames_of_Cons)
    let ?frame = "filter (\<lambda>r. \<not> pandas_blank r) body"
    have load: "load_dataframe (perform set_iter (AppendMany rows) d) = Inr \<lparr>columns = hdr, frame_rows = ?frame\<rparr>"
      unfolding after using pn' len by (rule load_filled)
    have "\<forall>x\<in>set rows. set (keys x) \<subseteq> set hdr
               \<and> (\<not> pandas_blank (render hdr x) \<longrightarrow>
                    (\<exists>e\<in>set ?frame. length e = length hdr
                       \<and> (\<forall>i<length hdr. e ! i = (case map_of x (hdr ! i) of None \<Rightarrow> [] | Some v \<Rightarrow> v))))"
    proof (intro ballI conjI impI)
      fix x assume x: "x \<in> set rows"
      with rows show "set (keys x) \<subseteq> set hdr" by auto
      assume "\<not> pandas_blank (render hdr x)"
      with rows x have "render hdr x \<in> set ?frame" by simp
      with render_entry [of hdr x]
      show "\<exists>e\<in>set ?frame. length e = length hdr
                       \<and> (\<forall>i<length hdr. e ! i = (case map_of x (hdr ! i) of None \<Rightarrow> [] | Some v \<Rightarrow> v))"
        by blast
    qed
    with load after show ?thesis
      by (simp add: header_of_def fieldnames_of_Cons)
  qed
  have one: "\<exists>df. load_dataframe (perform set_iter (Append r) d) = Inr df
         \<and> columns df = header_of (perform set_iter (Append r) d)
         \<and> set (keys r) \<subseteq> set (columns df)
         \<and> (\<not> pandas_blank (render (columns df) r) \<longrightarrow>
              (\<exists>e\<in>set (frame_rows df). length e = length (columns df)
                 \<and> (\<forall>i<length (columns df).
                       e ! i = (case map_of r (columns df ! i) of None \<Rightarrow> [] | Some v \<Rightarrow> v))))"
    if wf: "d = None \<or> (\<exists>recs. d = Some recs \<and> table_file recs)"
      and pn: "plain_names (header_of (perform set_iter (Append r) d))"
  proof -
    from pn have "header_of (perform set_iter (Append r) d) \<noteq> []"
      using pandas_blank_Nil by (auto simp: plain_names_def)
    with append_after [OF wf] obtain hdr body
      where after: "perform set_iter (Append r) d = Some (hdr # body)"
        and len: "\<forall>x\<in>set body. length x \<le> length hdr"
        and row: "render hdr r \<in> set body" and ks: "set (keys r) \<subseteq> set hdr"
      by blast
    from pn after have pn': "plain_names hdr"
      by (simp add: header_of_def fieldnames_of_Cons)
    let ?frame = "map (fill (length hdr)) (filter (\<lambda>r. \<not> pandas_blank r) body)"
    have load: "load_dataframe (perform set_iter (Append r) d) = Inr \<lparr>columns = hdr, frame_rows = ?frame\<rparr>"
      unfolding after using pn' len by (rule load_table)
    have entry: "\<exists>e\<in>set ?frame. length e = length hdr
               \<and> (\<forall>i<length hdr. e ! i = (case map_of r (hdr ! i) of None \<Rightarrow> [] | Some v \<Rightarrow> v))"
      if nb: "\<not> pandas_blank (render hdr r)"
    proof -
      from row nb have "fill (length hdr) (render hdr r) \<in> set ?frame" by simp
      then have "render hdr r \<in> set ?frame"
        by (simp add: fill_full length_render)
      with render_entry [of hdr r] show ?thesis by blast
    qed
    with load after ks show ?thesis
      by (simp add: header_of_def fieldnames_of_Cons)
  qed
  from many one show ?thesis by blast
qed

text \<open>
  C8 as stated fails for a row without keys and for a row of spaces. Appended where no table
  exists, the row without keys leaves a file of two blank lines, which has no column: loading
  raises \<^verbatim>\<open>EmptyDataError\<close> and the store's own reader finds no row. The row \<open>{a: " "}\<close> leaves the
  header \<open>a\<close> and a line of one space, which the loader skips: the loaded table has no row.
\<close>

theorem C8_lost_row_counterexample:
  "perform first_seen (AppendMany [[]]) None = Some [[], []]
   \<and> load_dataframe (perform first_seen (AppendMany [[]]) None) = Inl EmptyDataError
   \<and> rows_of (perform first_seen (AppendMany [[]]) None) = []
   \<and> perform first_seen (AppendMany [[(''a'', '' '')]]) None = Some [[''a''], ['' '']]
   \<and> load_dataframe (perform first_seen (AppendMany [[(''a'', '' '')]]) None)
       = Inr \<lparr>columns = [''a''], frame_rows = []\<rparr>"
  by (simp add: perform_def sync_header_and_append_many_def run_ops_def first_seen_def
      union_fields_def keys_def render_def row_get_def load_dataframe_def read_csv_def
      pandas_blank_def fill_def rows_of_def reader_rows_def fieldnames_of_def Let_def)

text \<open>
  The second append of the scenario, by either function.
\<close>

theorem C8_round_trip_witness:
  "set_order first_seen
   \<and> load_dataframe (perform first_seen (AppendMany [[(''a'', ''3''), (''c'', ''4'')]]) (Some [[''a'', ''b''], [''1'', ''2'']]))
      = Inr \<lparr>columns = [''a'', ''b'', ''c''], frame_rows = [[''1'', ''2'', []], [''3'', [], ''4'']]\<rparr>
   \<and> table_file [[''a'', ''b''], [''1'', ''2'']]
   \<and> load_dataframe (perform first_seen (Append [(''a'', ''3'')]) (Some [[''a'', ''b''], [''1'', ''2'']]))
      = Inr \<lparr>columns = [''a'', ''b''], frame_rows = [[''1'', ''2''], [''3'', []]]\<rparr>"
  using C8_round_trip [where set_iter = first_seen and rows = "[[(''a'', ''3''), (''c'', ''4'')]]"
      and d = "Some [[''a'', ''b''], [''1'', ''2'']]" and r = "[(''a'', ''3'')]"]
    set_order_first_seen
  by (simp add: table_file_def perform_def sync_header_and_append_many_def sync_header_and_append_def
      run_ops_def first_seen_def union_fields_def keys_def render_def row_get_def fieldnames_of_def
      reader_rows_def reader_row_def py_dict_def padded_def cell_get_def field_text_def
      load_dataframe_def read_csv_def pandas_blank_def fill_def header_of_def plain_names_def Let_def)

section \<open>C9: the conversion of values\<close>



section \<open>C10: appending no rows\<close>




end
